theory Spec2Isabelle
  imports Main "HOL-Library.AList"
begin

section \<open>Values, records and errors\<close>

text \<open>
  The differ reads \<^verbatim>\<open>oldManifest?.[path]\<close>. A manifest is a plain object (the result of
  \<^verbatim>\<open>JSON.parse\<close>, or an object literal in the tests), so a property read that finds
  no own property goes on to \<^verbatim>\<open>Object.prototype\<close>. The value read is therefore
  either a string of the manifest or a member inherited from the prototype (a function,
  or the prototype object itself for \<^verbatim>\<open>__proto__\<close>); \<open>Inherited n\<close> is the member
  named \<open>n\<close>.
\<close>

datatype "value" = Str string | Inherited string

text \<open>\<^verbatim>\<open>type SemVer = { version: string; major: number; minor: number; patch: number }\<close>\<close>

record SemVer =
  version :: string
  major :: nat
  minor :: nat
  patch :: nat

text \<open>
  \<^verbatim>\<open>new Error(`Invalid version format: ${version}`)\<close>: the only error of the core,
  identified by the value that the message interpolates.
\<close>

datatype error = InvalidVersionFormat "value"

text \<open>\<^verbatim>\<open>type ReleasePleaseManifest = Record<string, string>\<close>: the own properties, in the
  order of \<^verbatim>\<open>Object.entries\<close>. The nullable manifest is an \<open>option\<close>.\<close>

type_synonym ReleasePleaseManifest = "(string \<times> string) list"

text \<open>\<^verbatim>\<open>Record<string, [string, string]>\<close>, the own properties of \<^verbatim>\<open>majorBumps\<close>.\<close>

type_synonym MajorBumps = "(string \<times> (value \<times> value)) list"

record ManifestAnalysis =
  hasMajorBump :: bool
  majorBumps :: MajorBumps

section \<open>The version parser of the library\<close>

text \<open>
  \<^verbatim>\<open>parseVersion\<close> calls \<^verbatim>\<open>semver.parse\<close> of the package \<^verbatim>\<open>semver\<close>, whose code is
  not part of the repository sources. The definitions of this section stand for it.
\<close>

text \<open>Modelled from the spec: the digits of the three integers \<^verbatim>\<open>INT.INT.INT\<close>
  (\<^verbatim>\<open>semver.parse\<close> is missing from the sources).\<close>

definition is_digit :: "char \<Rightarrow> bool" where
  "is_digit c = (48 \<le> (of_char c :: nat) \<and> (of_char c :: nat) \<le> 57)"

text \<open>Modelled from the spec: a segment is a non-negative integer, that is a non-empty
  run of digits (\<^verbatim>\<open>semver.parse\<close> is missing from the sources).\<close>

definition numeric :: "string \<Rightarrow> bool" where
  "numeric s = (s \<noteq> [] \<and> list_all is_digit s)"

text \<open>Modelled from the spec: the integer that a run of digits denotes
  (\<^verbatim>\<open>semver.parse\<close> is missing from the sources).\<close>

definition digit_value :: "char \<Rightarrow> nat" where
  "digit_value c = of_char c - 48"

definition to_number :: "string \<Rightarrow> nat" where
  "to_number s = foldl (\<lambda>n c. 10 * n + digit_value c) 0 s"

text \<open>Modelled from the spec: the decimal form of a number, as the canonical string
  prints it (\<^verbatim>\<open>semver.parse\<close> is missing from the sources).\<close>

definition digit_char :: "nat \<Rightarrow> char" where
  "digit_char d = char_of (48 + d)"

fun nat_to_string :: "nat \<Rightarrow> string" where
  "nat_to_string n =
     (if n < 10 then [digit_char n]
      else nat_to_string (n div 10) @ [digit_char (n mod 10)])"

declare nat_to_string.simps [simp del]

text \<open>Modelled from the spec: the canonical string of a version, digits only, no prefix
  (\<^verbatim>\<open>semver.parse\<close> is missing from the sources).\<close>

definition canonical :: "nat \<Rightarrow> nat \<Rightarrow> nat \<Rightarrow> string" where
  "canonical a b c =
     nat_to_string a @ ''.'' @ nat_to_string b @ ''.'' @ nat_to_string c"

text \<open>Modelled from the spec: the segments between the dots
  (\<^verbatim>\<open>semver.parse\<close> is missing from the sources).\<close>

fun split_dot :: "string \<Rightarrow> string list" where
  "split_dot [] = [[]]"
| "split_dot (c # cs) =
     (if c = CHR ''.'' then [] # split_dot cs
      else (c # hd (split_dot cs)) # tl (split_dot cs))"

text \<open>Modelled from the spec: at most one leading character that is not a digit is
  stripped before parsing (\<^verbatim>\<open>semver.parse\<close> is missing from the sources).\<close>

fun strip_prefix :: "string \<Rightarrow> string" where
  "strip_prefix [] = []"
| "strip_prefix (c # cs) = (if is_digit c then c # cs else cs)"

text \<open>Modelled from the spec: \<^verbatim>\<open>semver.parse\<close> (missing from the sources) on a string.
  The rest must be exactly three dot-separated non-negative integers; the result has the
  three integers and the canonical string; \<open>None\<close> is the \<^verbatim>\<open>null\<close> of a rejected
  input.\<close>

definition parse_string :: "string \<Rightarrow> SemVer option" where
  "parse_string text =
     (case split_dot (strip_prefix text) of
        [a, b, c] \<Rightarrow>
          if numeric a \<and> numeric b \<and> numeric c
          then Some \<lparr>version = canonical (to_number a) (to_number b) (to_number c),
                     major = to_number a, minor = to_number b, patch = to_number c\<rparr>
          else None
      | _ \<Rightarrow> None)"

text \<open>Modelled from the spec: \<^verbatim>\<open>semver.parse\<close> (missing from the sources) on any value
  that reaches it. An input that does not have the shape of a version is rejected, and a
  value that is not a string has no such shape.\<close>

fun semver_parse :: "value \<Rightarrow> SemVer option" where
  "semver_parse (Str text) = parse_string text"
| "semver_parse (Inherited n) = None"

section \<open>\<^verbatim>\<open>src/utils/version.ts\<close>\<close>

definition parseVersion :: "value \<Rightarrow> error + SemVer" where
  "parseVersion v =
     (case semver_parse v of
        None \<Rightarrow> Inl (InvalidVersionFormat v)
      | Some parsed \<Rightarrow>
          Inr \<lparr>version = version parsed, major = major parsed,
               minor = minor parsed, patch = patch parsed\<rparr>)"

definition isMajorBump :: "value \<Rightarrow> value \<Rightarrow> error + bool" where
  "isMajorBump oldVersion newVersion =
     (case parseVersion oldVersion of
        Inl e \<Rightarrow> Inl e
      | Inr oldVer \<Rightarrow>
          (case parseVersion newVersion of
             Inl e \<Rightarrow> Inl e
           | Inr newVer \<Rightarrow> Inr (major newVer > major oldVer)))"

section \<open>\<^verbatim>\<open>src/utils/manifest.ts\<close>\<close>

text \<open>The names of the members of \<^verbatim>\<open>Object.prototype\<close>, which every plain object
  inherits.\<close>

definition Object_prototype :: "string list" where
  "Object_prototype =
     [''constructor'', ''__defineGetter__'', ''__defineSetter__'', ''hasOwnProperty'',
      ''__lookupGetter__'', ''__lookupSetter__'', ''isPrototypeOf'',
      ''propertyIsEnumerable'', ''toString'', ''valueOf'', ''__proto__'',
      ''toLocaleString'']"

text \<open>\<^verbatim>\<open>oldManifest?.[path]\<close>: the own property if there is one, else the inherited
  member of that name, else \<^verbatim>\<open>undefined\<close> (\<open>None\<close>).\<close>

definition get_property :: "ReleasePleaseManifest \<Rightarrow> string \<Rightarrow> value option" where
  "get_property manifest path =
     (case map_of manifest path of
        Some s \<Rightarrow> Some (Str s)
      | None \<Rightarrow> if path \<in> set Object_prototype then Some (Inherited path) else None)"

text \<open>The truth value of \<^verbatim>\<open>oldVersion\<close> in the condition: the empty string is
  false, every other string and every object is true (\<^verbatim>\<open>undefined\<close>, which is false,
  is the \<open>None\<close> of \<open>get_property\<close>).\<close>

fun truthy :: "value \<Rightarrow> bool" where
  "truthy (Str s) = (s \<noteq> [])"
| "truthy (Inherited n) = True"

text \<open>\<^verbatim>\<open>majorBumps[path] = [oldVersion, newVersion]\<close> on the plain object
  \<^verbatim>\<open>majorBumps\<close>: an own property is set, keeping its place if it exists. The name
  \<^verbatim>\<open>__proto__\<close> is the exception: the assignment runs the inherited setter, which
  replaces the prototype by the array and adds no own property.\<close>

definition set_property :: "MajorBumps \<Rightarrow> string \<Rightarrow> value \<times> value \<Rightarrow> MajorBumps" where
  "set_property obj path pair =
     (if path = ''__proto__'' then obj else AList.update path pair obj)"

text \<open>The loop over \<^verbatim>\<open>Object.entries(newManifest)\<close>; the third argument is
  \<^verbatim>\<open>majorBumps\<close> so far. The conjunction is evaluated from the left and stops at the
  first false operand, so \<^verbatim>\<open>isMajorBump\<close> runs, and can throw, only after the
  first two operands are true.\<close>

fun analyze_entries ::
  "ReleasePleaseManifest \<Rightarrow> (string \<times> string) list \<Rightarrow> MajorBumps \<Rightarrow> error + MajorBumps" where
  "analyze_entries oldManifest [] bumps = Inr bumps"
| "analyze_entries oldManifest ((path, newVersion) # rest) bumps =
     (case get_property oldManifest path of
        None \<Rightarrow> analyze_entries oldManifest rest bumps
      | Some oldVersion \<Rightarrow>
          if truthy oldVersion \<and> oldVersion \<noteq> Str newVersion then
            (case isMajorBump oldVersion (Str newVersion) of
               Inl e \<Rightarrow> Inl e
             | Inr b \<Rightarrow>
                 analyze_entries oldManifest rest
                   (if b then set_property bumps path (oldVersion, Str newVersion)
                    else bumps))
          else analyze_entries oldManifest rest bumps)"

definition analyzeManifestChanges ::
  "ReleasePleaseManifest option \<Rightarrow> ReleasePleaseManifest option \<Rightarrow> error + ManifestAnalysis" where
  "analyzeManifestChanges oldManifest newManifest =
     (case (oldManifest, newManifest) of
        (Some old, Some new) \<Rightarrow>
          (case analyze_entries old new [] of
             Inl e \<Rightarrow> Inl e
           | Inr bumps \<Rightarrow>
               Inr \<lparr>hasMajorBump = (length (map fst bumps) > 0), majorBumps = bumps\<rparr>)
      | _ \<Rightarrow> Inr \<lparr>hasMajorBump = False, majorBumps = []\<rparr>)"

section \<open>The shape of a version string, in the words of the specification\<close>

text \<open>An optional single leading character that is not a digit, then exactly three
  dot-separated non-negative integers, and no further suffix.\<close>

definition version_shape :: "string \<Rightarrow> bool" where
  "version_shape t =
     (\<exists>p a b c. t = p @ a @ ''.'' @ b @ ''.'' @ c \<and>
        (p = [] \<or> (\<exists>ch. p = [ch] \<and> \<not> is_digit ch)) \<and>
        numeric a \<and> numeric b \<and> numeric c)"

section \<open>What one entry of the new manifest records\<close>

text \<open>The pair that the loop body stores for \<open>path\<close> when the new manifest gives it
  \<open>newVersion\<close> and \<^verbatim>\<open>isMajorBump\<close> does not throw: the three operands of the condition
  hold and the assignment adds an own property.\<close>

definition recorded ::
  "ReleasePleaseManifest \<Rightarrow> string \<Rightarrow> string \<Rightarrow> (value \<times> value) option" where
  "recorded oldManifest path newVersion =
     (case get_property oldManifest path of
        None \<Rightarrow> None
      | Some oldVersion \<Rightarrow>
          if truthy oldVersion \<and> oldVersion \<noteq> Str newVersion \<and>
             isMajorBump oldVersion (Str newVersion) = Inr True \<and> path \<noteq> ''__proto__''
          then Some (oldVersion, Str newVersion)
          else None)"

text \<open>The new manifest without its entry for \<open>path\<close>.\<close>

definition without :: "string \<Rightarrow> ReleasePleaseManifest \<Rightarrow> ReleasePleaseManifest" where
  "without path manifest = filter (\<lambda>entry. fst entry \<noteq> path) manifest"

section \<open>Splitting at the dots\<close>

lemma split_dot_nonempty: "split_dot s \<noteq> []"
  by (induction s) auto

lemma split_dot_no_dot: "CHR ''.'' \<notin> set a \<Longrightarrow> split_dot a = [a]"
  by (induction a) auto

lemma split_dot_append: "CHR ''.'' \<notin> set a \<Longrightarrow> split_dot (a @ CHR ''.'' # r) = a # split_dot r"
  by (induction a) auto

lemma split_dot_single: "split_dot s = [x] \<Longrightarrow> s = x"
proof (induction s arbitrary: x)
  case Nil
  then show ?case by simp
next
  case (Cons c cs)
  show ?case
  proof (cases "c = CHR ''.''")
    case True
    with Cons.prems show ?thesis by (simp add: split_dot_nonempty)
  next
    case False
    with Cons.prems have tl: "tl (split_dot cs) = []" and x: "x = c # hd (split_dot cs)"
      by auto
    from tl have "split_dot cs = [hd (split_dot cs)]"
      using split_dot_nonempty [of cs] by (cases "split_dot cs") auto
    then have "cs = hd (split_dot cs)" by (rule Cons.IH)
    with x show ?thesis by simp
  qed
qed

lemma split_dot_cons:
  "split_dot s = x # y # ys \<Longrightarrow> \<exists>r. s = x @ CHR ''.'' # r \<and> split_dot r = y # ys"
proof (induction s arbitrary: x)
  case Nil
  then show ?case by simp
next
  case (Cons c cs)
  show ?case
  proof (cases "c = CHR ''.''")
    case True
    with Cons.prems show ?thesis by auto
  next
    case False
    with Cons.prems have tl: "tl (split_dot cs) = y # ys" and x: "x = c # hd (split_dot cs)"
      by auto
    from tl have "split_dot cs = hd (split_dot cs) # y # ys"
      using split_dot_nonempty [of cs] by (cases "split_dot cs") auto
    then obtain r where "cs = hd (split_dot cs) @ CHR ''.'' # r" and "split_dot r = y # ys"
      using Cons.IH by blast
    with x show ?thesis by auto
  qed
qed

lemma split_dot_three:
  "split_dot s = [a, b, c] \<Longrightarrow> s = a @ ''.'' @ b @ ''.'' @ c"
proof -
  assume h: "split_dot s = [a, b, c]"
  then obtain r where r: "s = a @ CHR ''.'' # r" "split_dot r = [b, c]"
    using split_dot_cons by blast
  then obtain r' where r': "r = b @ CHR ''.'' # r'" "split_dot r' = [c]"
    using split_dot_cons by blast
  from r'(2) have "r' = c" by (rule split_dot_single)
  with r r' show ?thesis by simp
qed

lemma dot_not_digit: "\<not> is_digit CHR ''.''"
  by (simp add: is_digit_def)

lemma numeric_no_dot: "numeric a \<Longrightarrow> CHR ''.'' \<notin> set a"
  using dot_not_digit by (auto simp: numeric_def list_all_iff)

section \<open>Which strings parse\<close>

lemma parse_string_SomeD:
  assumes "parse_string t = Some v"
  shows "\<exists>a b c. split_dot (strip_prefix t) = [a, b, c] \<and> numeric a \<and> numeric b \<and> numeric c \<and>
           v = \<lparr>version = canonical (to_number a) (to_number b) (to_number c),
                major = to_number a, minor = to_number b, patch = to_number c\<rparr>"
  using assms by (auto simp: parse_string_def split: list.splits if_splits)

lemma strip_prefix_cases:
  "strip_prefix t = t \<or> (\<exists>ch. \<not> is_digit ch \<and> t = ch # strip_prefix t)"
  by (cases t) auto

lemma strip_prefix_digit: "numeric a \<Longrightarrow> strip_prefix (a @ r) = a @ r"
  by (cases a) (auto simp: numeric_def)

lemma parse_string_shape: "parse_string t = Some v \<Longrightarrow> version_shape t"
proof -
  assume "parse_string t = Some v"
  then obtain a b c where s: "split_dot (strip_prefix t) = [a, b, c]"
    and n: "numeric a" "numeric b" "numeric c"
    using parse_string_SomeD by blast
  from s have eq: "strip_prefix t = a @ ''.'' @ b @ ''.'' @ c"
    by (rule split_dot_three)
  from strip_prefix_cases [of t] show ?thesis
  proof
    assume "strip_prefix t = t"
    with eq have "t = [] @ a @ ''.'' @ b @ ''.'' @ c" by simp
    with n show ?thesis unfolding version_shape_def by blast
  next
    assume "\<exists>ch. \<not> is_digit ch \<and> t = ch # strip_prefix t"
    then obtain ch where ch: "\<not> is_digit ch" "t = ch # strip_prefix t" by blast
    with eq have "t = [ch] @ a @ ''.'' @ b @ ''.'' @ c" by simp
    with n ch(1) show ?thesis unfolding version_shape_def by blast
  qed
qed

lemma parse_string_numerics:
  assumes "numeric a" "numeric b" "numeric c"
    and "strip_prefix t = a @ ''.'' @ b @ ''.'' @ c"
  shows "parse_string t =
           Some \<lparr>version = canonical (to_number a) (to_number b) (to_number c),
                 major = to_number a, minor = to_number b, patch = to_number c\<rparr>"
  using assms by (simp add: parse_string_def split_dot_append split_dot_no_dot numeric_no_dot)

lemma shape_parse_string: "version_shape t \<Longrightarrow> \<exists>v. parse_string t = Some v"
proof -
  assume "version_shape t"
  then obtain p a b c where tt: "t = p @ a @ ''.'' @ b @ ''.'' @ c"
    and p: "p = [] \<or> (\<exists>ch. p = [ch] \<and> \<not> is_digit ch)"
    and n: "numeric a" "numeric b" "numeric c"
    unfolding version_shape_def by blast
  from p have "strip_prefix t = a @ ''.'' @ b @ ''.'' @ c"
  proof
    assume "p = []"
    with tt n(1) show ?thesis using strip_prefix_digit [of a "''.'' @ b @ ''.'' @ c"] by simp
  next
    assume "\<exists>ch. p = [ch] \<and> \<not> is_digit ch"
    with tt show ?thesis by auto
  qed
  with n show ?thesis by (simp add: parse_string_numerics)
qed

text \<open>
  C3. \<^verbatim>\<open>parseVersion\<close> returns a version exactly for the strings made of at most one
  leading character that is not a digit, followed by three non-empty runs of digits
  separated by two dots, with nothing after them. On every other string it fails with
  \<open>InvalidVersionFormat\<close>, and the failure carries the string it was given.
\<close>

theorem parseVersion_shape:
  "((\<exists>v. parseVersion (Str t) = Inr v) \<longleftrightarrow> version_shape t) \<and>
   (\<not> version_shape t \<longrightarrow> parseVersion (Str t) = Inl (InvalidVersionFormat (Str t)))"
proof (cases "parse_string t")
  case None
  then have "\<not> version_shape t" using shape_parse_string by fastforce
  with None show ?thesis by (simp add: parseVersion_def)
next
  case (Some v)
  then have "version_shape t" by (rule parse_string_shape)
  with Some show ?thesis by (simp add: parseVersion_def)
qed

theorem parseVersion_shape_witness:
  "version_shape ''v1.2.3'' \<and> \<not> version_shape ''vv1.2.3'' \<and>
   parseVersion (Str ''vv1.2.3'') = Inl (InvalidVersionFormat (Str ''vv1.2.3''))"
proof -
  have a: "parseVersion (Str ''v1.2.3'') = Inr \<lparr>version = ''1.2.3'', major = 1, minor = 2, patch = 3\<rparr>"
    by code_simp
  have b: "parseVersion (Str ''vv1.2.3'') = Inl (InvalidVersionFormat (Str ''vv1.2.3''))"
    by code_simp
  from a have "version_shape ''v1.2.3''"
    using parseVersion_shape [of "''v1.2.3''"] by simp
  moreover from b have "\<not> version_shape ''vv1.2.3''"
    using parseVersion_shape [of "''vv1.2.3''"] by auto
  ultimately show ?thesis using b by simp
qed


section \<open>Decimal numbers and the canonical string\<close>

lemma digit_value_digit_char: "d < 10 \<Longrightarrow> digit_value (digit_char d) = d"
  by (simp add: digit_value_def digit_char_def)

lemma is_digit_digit_char: "d < 10 \<Longrightarrow> is_digit (digit_char d)"
  by (simp add: is_digit_def digit_char_def)

lemma to_number_snoc: "to_number (s @ [c]) = 10 * to_number s + digit_value c"
  by (simp add: to_number_def)

lemma numeric_snoc: "numeric s \<Longrightarrow> is_digit c \<Longrightarrow> numeric (s @ [c])"
  by (simp add: numeric_def)

lemma numeric_nat_to_string: "numeric (nat_to_string n)"
proof (induction n rule: nat_to_string.induct)
  case (1 n)
  show ?case
  proof (cases "n < 10")
    case True
    then show ?thesis
      by (simp add: nat_to_string.simps [of n] numeric_def is_digit_digit_char)
  next
    case False
    with 1 have "numeric (nat_to_string (n div 10))" by simp
    moreover have "is_digit (digit_char (n mod 10))" by (simp add: is_digit_digit_char)
    ultimately show ?thesis using False
      by (simp add: nat_to_string.simps [of n] numeric_snoc)
  qed
qed

lemma to_number_nat_to_string: "to_number (nat_to_string n) = n"
proof (induction n rule: nat_to_string.induct)
  case (1 n)
  show ?case
  proof (cases "n < 10")
    case True
    then show ?thesis
      by (simp add: nat_to_string.simps [of n] to_number_def digit_value_digit_char)
  next
    case False
    with 1 have "to_number (nat_to_string (n div 10)) = n div 10" by simp
    with False show ?thesis
      by (simp add: nat_to_string.simps [of n] to_number_snoc digit_value_digit_char)
  qed
qed

lemma parse_string_canonical:
  "parse_string (canonical a b c) = Some \<lparr>version = canonical a b c, major = a, minor = b, patch = c\<rparr>"
proof -
  have "strip_prefix (canonical a b c) = nat_to_string a @ ''.'' @ nat_to_string b @ ''.'' @ nat_to_string c"
    unfolding canonical_def by (rule strip_prefix_digit) (rule numeric_nat_to_string)
  then show ?thesis
    using parse_string_numerics [OF numeric_nat_to_string numeric_nat_to_string numeric_nat_to_string]
    by (simp add: to_number_nat_to_string)
qed

lemma parse_string_v_canonical:
  "parse_string (CHR ''v'' # canonical a b c) = Some \<lparr>version = canonical a b c, major = a, minor = b, patch = c\<rparr>"
proof -
  have "\<not> is_digit CHR ''v''" by (simp add: is_digit_def)
  then have "strip_prefix (CHR ''v'' # canonical a b c) = nat_to_string a @ ''.'' @ nat_to_string b @ ''.'' @ nat_to_string c"
    by (simp add: canonical_def)
  then show ?thesis
    using parse_string_numerics [OF numeric_nat_to_string numeric_nat_to_string numeric_nat_to_string]
    by (simp add: to_number_nat_to_string)
qed

text \<open>
  C8. For all numbers \<open>a\<close>, \<open>b\<close>, \<open>c\<close>, parsing the string \<open>a.b.c\<close> written in decimal
  gives back that very string as the canonical \<open>version\<close> field (with the three numbers as
  \<open>major\<close>, \<open>minor\<close>, \<open>patch\<close>), and parsing the same string behind one \<open>v\<close> gives the
  same result: the canonical field is the string without the prefix.
\<close>

theorem parseVersion_canonical:
  "parseVersion (Str (canonical a b c)) =
     Inr \<lparr>version = canonical a b c, major = a, minor = b, patch = c\<rparr> \<and>
   parseVersion (Str (''v'' @ canonical a b c)) =
     Inr \<lparr>version = canonical a b c, major = a, minor = b, patch = c\<rparr>"
  by (simp add: parseVersion_def parse_string_canonical parse_string_v_canonical)

theorem parseVersion_canonical_witness:
  "parseVersion (Str ''1.2.3'') =
     Inr \<lparr>version = ''1.2.3'', major = 1, minor = 2, patch = 3\<rparr> \<and>
   parseVersion (Str ''v1.2.3'') =
     Inr \<lparr>version = ''1.2.3'', major = 1, minor = 2, patch = 3\<rparr>"
proof -
  have "canonical 1 2 3 = ''1.2.3''" by code_simp
  with parseVersion_canonical [of 1 2 3] show ?thesis by simp
qed

text \<open>The first valid cases of the parser's test table.\<close>

lemma parseVersion_examples:
  "parseVersion (Str ''1.2.3'') = Inr \<lparr>version = ''1.2.3'', major = 1, minor = 2, patch = 3\<rparr>"
  "parseVersion (Str ''v10.20.30'') =
     Inr \<lparr>version = ''10.20.30'', major = 10, minor = 20, patch = 30\<rparr>"
  by code_simp+

text \<open>The invalid cases of the parser's test table.\<close>

lemma parseVersion_invalid_examples:
  "parseVersion (Str ''1.2'') = Inl (InvalidVersionFormat (Str ''1.2''))"
  "parseVersion (Str ''1.2.3.4'') = Inl (InvalidVersionFormat (Str ''1.2.3.4''))"
  "parseVersion (Str ''1.2.x'') = Inl (InvalidVersionFormat (Str ''1.2.x''))"
  "parseVersion (Str []) = Inl (InvalidVersionFormat (Str []))"
  "parseVersion (Str ''vv1.2.3'') = Inl (InvalidVersionFormat (Str ''vv1.2.3''))"
  "parseVersion (Str ''v1.2'') = Inl (InvalidVersionFormat (Str ''v1.2''))"
  by code_simp+

section \<open>The loop of the differ\<close>

lemma map_of_set_property:
  "map_of (set_property obj path pair) k =
     (if k = path \<and> path \<noteq> ''__proto__'' then Some pair else map_of obj k)"
  by (simp add: set_property_def AList.update_conv')

lemma keys_set_property:
  "fst ` set (set_property obj path pair) \<subseteq> insert path (fst ` set obj)"
  by (auto simp: set_property_def AList.dom_update)

text \<open>The loop body, branch by branch.\<close>

lemma step_undefined:
  "get_property old path = None \<Longrightarrow>
   analyze_entries old ((path, nv) # rest) acc = analyze_entries old rest acc"
  by simp

lemma step_falsy:
  "get_property old path = Some ov \<Longrightarrow> \<not> truthy ov \<Longrightarrow>
   analyze_entries old ((path, nv) # rest) acc = analyze_entries old rest acc"
  by simp

lemma step_unchanged:
  "get_property old path = Some (Str nv) \<Longrightarrow>
   analyze_entries old ((path, nv) # rest) acc = analyze_entries old rest acc"
  by simp

lemma step_throws:
  "get_property old path = Some ov \<Longrightarrow> truthy ov \<Longrightarrow> ov \<noteq> Str nv \<Longrightarrow>
   isMajorBump ov (Str nv) = Inl e \<Longrightarrow>
   analyze_entries old ((path, nv) # rest) acc = Inl e"
  by simp

lemma step_major:
  "get_property old path = Some ov \<Longrightarrow> truthy ov \<Longrightarrow> ov \<noteq> Str nv \<Longrightarrow>
   isMajorBump ov (Str nv) = Inr True \<Longrightarrow>
   analyze_entries old ((path, nv) # rest) acc =
     analyze_entries old rest (set_property acc path (ov, Str nv))"
  by simp

lemma step_not_major:
  "get_property old path = Some ov \<Longrightarrow> truthy ov \<Longrightarrow> ov \<noteq> Str nv \<Longrightarrow>
   isMajorBump ov (Str nv) = Inr False \<Longrightarrow>
   analyze_entries old ((path, nv) # rest) acc = analyze_entries old rest acc"
  by simp


lemma set_property_proto: "set_property obj ''__proto__'' pair = obj"
  by (simp add: set_property_def)

lemma analyze_entries_Cons_Inr:
  assumes run: "analyze_entries old ((path, nv) # rest) acc = Inr bumps"
  shows "(recorded old path nv = None \<and> analyze_entries old rest acc = Inr bumps) \<or>
         (\<exists>pr. recorded old path nv = Some pr \<and>
               analyze_entries old rest (set_property acc path pr) = Inr bumps)"
proof (cases "get_property old path")
  case None
  then have "recorded old path nv = None" by (simp add: recorded_def)
  moreover from run None have "analyze_entries old rest acc = Inr bumps"
    by (simp only: step_undefined)
  ultimately show ?thesis by blast
next
  case (Some ov)
  show ?thesis
  proof (cases "truthy ov \<and> ov \<noteq> Str nv")
    case False
    with Some have "recorded old path nv = None" by (simp add: recorded_def)
    moreover from False Some have "analyze_entries old ((path, nv) # rest) acc = analyze_entries old rest acc"
      using step_falsy [of old path ov nv rest acc] step_unchanged [of old path nv rest acc] by blast
    ultimately show ?thesis using run by simp
  next
    case True
    then have t: "truthy ov" and ne: "ov \<noteq> Str nv" by simp_all
    show ?thesis
    proof (cases "isMajorBump ov (Str nv)")
      case (Inl e)
      with run show ?thesis using step_throws [OF Some t ne Inl, of rest acc] by simp
    next
      case (Inr b)
      show ?thesis
      proof (cases "b \<and> path \<noteq> ''__proto__''")
        case True
        with Inr have major: "isMajorBump ov (Str nv) = Inr True" by simp
        from Some t ne major True have "recorded old path nv = Some (ov, Str nv)"
          by (simp add: recorded_def)
        moreover from run have "analyze_entries old rest (set_property acc path (ov, Str nv)) = Inr bumps"
          using step_major [OF Some t ne major, of rest acc] by simp
        ultimately show ?thesis by blast
      next
        case False
        with Some Inr have none: "recorded old path nv = None" by (auto simp: recorded_def)
        have "analyze_entries old ((path, nv) # rest) acc = analyze_entries old rest acc"
        proof (cases b)
          case True
          with False have p: "path = ''__proto__''" by simp
          from True Inr have major: "isMajorBump ov (Str nv) = Inr True" by simp
          show ?thesis using step_major [OF Some t ne major, of rest acc] p
            by (simp only: set_property_proto)
        next
          case False
          with Inr have "isMajorBump ov (Str nv) = Inr False" by simp
          then show ?thesis by (rule step_not_major [OF Some t ne])
        qed
        with run none show ?thesis by simp
      qed
    qed
  qed
qed


lemma analyze_entries_lookup:
  "analyze_entries old new acc = Inr bumps \<Longrightarrow> distinct (map fst new) \<Longrightarrow>
   map_of bumps k =
     (case map_of new k of
        None \<Rightarrow> map_of acc k
      | Some nv \<Rightarrow> (case recorded old k nv of None \<Rightarrow> map_of acc k | Some pr \<Rightarrow> Some pr))"
proof (induction new arbitrary: acc)
  case Nil
  then show ?case by simp
next
  case (Cons entry rest)
  obtain path nv where entry: "entry = (path, nv)" by (cases entry)
  from Cons.prems(2) entry have d: "distinct (map fst rest)" and fresh: "path \<notin> fst ` set rest"
    by auto
  from fresh have rest_path: "map_of rest path = None" by (simp add: map_of_eq_None_iff)
  from Cons.prems(1) entry
  have "(recorded old path nv = None \<and> analyze_entries old rest acc = Inr bumps) \<or>
        (\<exists>pr. recorded old path nv = Some pr \<and>
              analyze_entries old rest (set_property acc path pr) = Inr bumps)"
    using analyze_entries_Cons_Inr [of old path nv rest acc bumps] by simp
  then show ?case
  proof
    assume a: "recorded old path nv = None \<and> analyze_entries old rest acc = Inr bumps"
    then have "map_of bumps k =
       (case map_of rest k of
          None \<Rightarrow> map_of acc k
        | Some nv \<Rightarrow> (case recorded old k nv of None \<Rightarrow> map_of acc k | Some pr \<Rightarrow> Some pr))"
      using Cons.IH [OF _ d] by blast
    with a entry rest_path show ?thesis by (cases "k = path") simp_all
  next
    assume "\<exists>pr. recorded old path nv = Some pr \<and>
              analyze_entries old rest (set_property acc path pr) = Inr bumps"
    then obtain pr where pr: "recorded old path nv = Some pr"
      and run: "analyze_entries old rest (set_property acc path pr) = Inr bumps" by blast
    from pr have np: "path \<noteq> ''__proto__''"
      by (auto simp: recorded_def split: option.splits if_splits)
    have "map_of bumps k =
       (case map_of rest k of
          None \<Rightarrow> map_of (set_property acc path pr) k
        | Some nv \<Rightarrow> (case recorded old k nv of
                        None \<Rightarrow> map_of (set_property acc path pr) k | Some pr \<Rightarrow> Some pr))"
      using Cons.IH [OF run d] .
    with pr np entry rest_path show ?thesis
      by (cases "k = path") (simp_all add: map_of_set_property split: option.splits)
  qed
qed

lemma analyze_entries_keys:
  "analyze_entries old new acc = Inr bumps \<Longrightarrow> fst ` set bumps \<subseteq> fst ` set acc \<union> fst ` set new"
proof (induction new arbitrary: acc)
  case Nil
  then show ?case by simp
next
  case (Cons entry rest)
  obtain path nv where entry: "entry = (path, nv)" by (cases entry)
  from Cons.prems entry
  have "(recorded old path nv = None \<and> analyze_entries old rest acc = Inr bumps) \<or>
        (\<exists>pr. recorded old path nv = Some pr \<and>
              analyze_entries old rest (set_property acc path pr) = Inr bumps)"
    using analyze_entries_Cons_Inr [of old path nv rest acc bumps] by simp
  then obtain acc' where run: "analyze_entries old rest acc' = Inr bumps"
    and acc': "fst ` set acc' \<subseteq> insert path (fst ` set acc)"
    using keys_set_property [of acc path] by blast
  from Cons.IH [OF run] acc' entry show ?case by auto
qed

section \<open>The predicate and the result record\<close>

lemma parseVersion_Inl: "parseVersion v = Inl e \<Longrightarrow> e = InvalidVersionFormat v"
  by (auto simp: parseVersion_def split: option.splits)

lemma parseVersion_Inherited: "parseVersion (Inherited n) = Inl (InvalidVersionFormat (Inherited n))"
  by (simp add: parseVersion_def)

lemma isMajorBump_Inr:
  "isMajorBump a b = Inr r \<Longrightarrow>
   \<exists>va vb. parseVersion a = Inr va \<and> parseVersion b = Inr vb \<and> r = (major va < major vb)"
  by (auto simp: isMajorBump_def split: sum.splits)

lemma isMajorBump_Inl:
  "isMajorBump a b = Inl e \<Longrightarrow> parseVersion a = Inl e \<or> parseVersion b = Inl e"
  by (auto simp: isMajorBump_def split: sum.splits)

lemma isMajorBump_fails:
  "parseVersion a = Inl e \<or> parseVersion b = Inl e \<Longrightarrow> \<exists>e'. isMajorBump a b = Inl e'"
  by (auto simp: isMajorBump_def split: sum.splits)

text \<open>
  C1. When both strings parse, \<^verbatim>\<open>isMajorBump\<close> returns whether the major number of the
  new version is strictly greater than that of the old one, whatever the minor and patch
  numbers are: it is false for equal and for decreasing major numbers. On twice the same
  string it returns false.
\<close>

theorem isMajorBump_major:
  assumes "parseVersion (Str a) = Inr va" and "parseVersion (Str b) = Inr vb"
  shows "isMajorBump (Str a) (Str b) = Inr (major va < major vb) \<and>
         isMajorBump (Str a) (Str a) = Inr False"
  using assms by (simp add: isMajorBump_def)

theorem isMajorBump_major_witness:
  "isMajorBump (Str ''1.2.3'') (Str ''2.0.0'') = Inr True \<and>
   isMajorBump (Str ''1.2.3'') (Str ''1.3.0'') = Inr False \<and>
   isMajorBump (Str ''2.0.0'') (Str ''1.9.9'') = Inr False \<and>
   isMajorBump (Str ''1.2.3'') (Str ''1.2.3'') = Inr False"
proof -
  have a: "parseVersion (Str ''1.2.3'') = Inr \<lparr>version = ''1.2.3'', major = 1, minor = 2, patch = 3\<rparr>"
    by code_simp
  have b: "parseVersion (Str ''2.0.0'') = Inr \<lparr>version = ''2.0.0'', major = 2, minor = 0, patch = 0\<rparr>"
    by code_simp
  have c: "parseVersion (Str ''1.3.0'') = Inr \<lparr>version = ''1.3.0'', major = 1, minor = 3, patch = 0\<rparr>"
    by code_simp
  have d: "parseVersion (Str ''1.9.9'') = Inr \<lparr>version = ''1.9.9'', major = 1, minor = 9, patch = 9\<rparr>"
    by code_simp
  show ?thesis
    using isMajorBump_major [OF a b] isMajorBump_major [OF a c] isMajorBump_major [OF b d]
    by simp
qed

text \<open>
  C4. When the old or the new manifest is \<^verbatim>\<open>null\<close>, the result is
  \<^verbatim>\<open>{hasMajorBump: false, majorBumps: {}}\<close> and nothing is thrown, whatever the other
  manifest is.
\<close>

theorem analyzeManifestChanges_null:
  "oldManifest = None \<or> newManifest = None \<Longrightarrow>
   analyzeManifestChanges oldManifest newManifest =
     Inr \<lparr>hasMajorBump = False, majorBumps = []\<rparr>"
  by (auto simp: analyzeManifestChanges_def split: option.splits)

theorem analyzeManifestChanges_null_witness:
  "analyzeManifestChanges None (Some [(''.'', ''1.0.0'')]) =
     Inr \<lparr>hasMajorBump = False, majorBumps = []\<rparr> \<and>
   analyzeManifestChanges (Some [(''.'', ''1.0.0'')]) None =
     Inr \<lparr>hasMajorBump = False, majorBumps = []\<rparr>"
  using analyzeManifestChanges_null [of None "Some [(''.'', ''1.0.0'')]"]
    analyzeManifestChanges_null [of "Some [(''.'', ''1.0.0'')]" None]
  by simp

lemma analyzeManifestChanges_Inr:
  "analyzeManifestChanges (Some old) (Some new) = Inr r \<Longrightarrow>
   analyze_entries old new [] = Inr (majorBumps r) \<and> hasMajorBump r = (majorBumps r \<noteq> [])"
  by (auto simp: analyzeManifestChanges_def split: sum.splits)

lemma analyzeManifestChanges_present:
  "analyzeManifestChanges (Some old) (Some new) =
     (case analyze_entries old new [] of
        Inl e \<Rightarrow> Inl e
      | Inr bumps \<Rightarrow> Inr \<lparr>hasMajorBump = (bumps \<noteq> []), majorBumps = bumps\<rparr>)"
  by (simp add: analyzeManifestChanges_def split: sum.splits)

text \<open>
  C7. Whatever the two inputs are, a returned result has \<open>hasMajorBump\<close> true exactly when
  \<open>majorBumps\<close> has at least one entry.
\<close>

theorem hasMajorBump_iff:
  "analyzeManifestChanges oldManifest newManifest = Inr r \<Longrightarrow>
   (hasMajorBump r \<longleftrightarrow> majorBumps r \<noteq> []) \<and>
   (hasMajorBump r \<longleftrightarrow> (\<exists>path. map_of (majorBumps r) path \<noteq> None))"
proof -
  assume run: "analyzeManifestChanges oldManifest newManifest = Inr r"
  have "hasMajorBump r \<longleftrightarrow> majorBumps r \<noteq> []"
  proof (cases "oldManifest = None \<or> newManifest = None")
    case True
    with run show ?thesis
      by (auto simp: analyzeManifestChanges_def split: option.splits)
  next
    case False
    then obtain old new where "oldManifest = Some old" "newManifest = Some new" by auto
    with run show ?thesis using analyzeManifestChanges_Inr by blast
  qed
  moreover have "(\<exists>path. map_of (majorBumps r) path \<noteq> None) \<longleftrightarrow> majorBumps r \<noteq> []"
    by (cases "majorBumps r") auto
  ultimately show ?thesis by simp
qed

theorem hasMajorBump_iff_witness:
  "(hasMajorBump \<lparr>hasMajorBump = True, majorBumps = [(''.'', Str ''1.2.3'', Str ''2.0.0'')]\<rparr> \<longleftrightarrow>
      majorBumps \<lparr>hasMajorBump = True, majorBumps = [(''.'', Str ''1.2.3'', Str ''2.0.0'')]\<rparr> \<noteq> []) \<and>
   analyzeManifestChanges (Some [(''.'', ''1.2.3'')]) (Some [(''.'', ''2.0.0'')]) =
      Inr \<lparr>hasMajorBump = True, majorBumps = [(''.'', Str ''1.2.3'', Str ''2.0.0'')]\<rparr>"
proof -
  have run: "analyzeManifestChanges (Some [(''.'', ''1.2.3'')]) (Some [(''.'', ''2.0.0'')]) =
      Inr \<lparr>hasMajorBump = True, majorBumps = [(''.'', Str ''1.2.3'', Str ''2.0.0'')]\<rparr>"
    by code_simp
  from hasMajorBump_iff [OF run] run show ?thesis by blast
qed

section \<open>The entries of the result\<close>

lemma get_property_Str: "get_property old path = Some (Str s) \<longleftrightarrow> map_of old path = Some s"
  by (auto simp: get_property_def split: option.splits)

lemma get_property_own: "map_of o1 path = map_of o2 path \<Longrightarrow> get_property o1 path = get_property o2 path"
  by (simp add: get_property_def)

lemma recorded_own: "map_of o1 path = map_of o2 path \<Longrightarrow> recorded o1 path nv = recorded o2 path nv"
  using get_property_own [of o1 path o2] by (simp add: recorded_def)

lemma recorded_SomeD:
  assumes "recorded old path nv = Some (x, y)"
  shows "\<exists>so vo vn. x = Str so \<and> y = Str nv \<and> map_of old path = Some so \<and> so \<noteq> nv \<and>
           parseVersion (Str so) = Inr vo \<and> parseVersion (Str nv) = Inr vn \<and>
           major vo < major vn"
proof -
  from assms have g: "get_property old path = Some x" and y: "y = Str nv"
    and ne: "x \<noteq> Str nv" and m: "isMajorBump x (Str nv) = Inr True"
    by (auto simp: recorded_def split: option.splits if_splits)
  from m obtain vo vn where p: "parseVersion x = Inr vo" "parseVersion (Str nv) = Inr vn"
    "major vo < major vn"
    using isMajorBump_Inr by blast
  from p(1) obtain so where x: "x = Str so"
    by (cases x) (simp_all add: parseVersion_Inherited)
  with g have "map_of old path = Some so" by (simp add: get_property_Str)
  with x y ne p show ?thesis by auto
qed

lemma bumps_lookup:
  assumes "analyzeManifestChanges (Some old) (Some new) = Inr r" and "distinct (map fst new)"
  shows "map_of (majorBumps r) path =
           (case map_of new path of None \<Rightarrow> None | Some nv \<Rightarrow> recorded old path nv)"
proof -
  from assms(1) have "analyze_entries old new [] = Inr (majorBumps r)"
    using analyzeManifestChanges_Inr by blast
  from analyze_entries_lookup [OF this assms(2), of path] show ?thesis
    by (simp split: option.splits)
qed

text \<open>
  C6. In a result returned for two present manifests, every entry \<open>path \<mapsto> [old, new]\<close>
  of \<open>majorBumps\<close> is such that both manifests have the path, \<open>old\<close> and \<open>new\<close> are their
  strings at that path, the two strings differ, both parse, and the major number of
  \<open>new\<close> is strictly greater than that of \<open>old\<close>. (The keys of a manifest are distinct.)
\<close>

theorem majorBumps_entry:
  assumes "analyzeManifestChanges (Some old) (Some new) = Inr r"
    and "distinct (map fst new)"
    and "map_of (majorBumps r) path = Some (x, y)"
  shows "\<exists>so sn vo vn. x = Str so \<and> y = Str sn \<and>
           map_of old path = Some so \<and> map_of new path = Some sn \<and> so \<noteq> sn \<and>
           parseVersion (Str so) = Inr vo \<and> parseVersion (Str sn) = Inr vn \<and>
           major vo < major vn"
proof -
  from bumps_lookup [OF assms(1,2), of path] assms(3)
  obtain sn where sn: "map_of new path = Some sn" and rec: "recorded old path sn = Some (x, y)"
    by (auto split: option.splits)
  from recorded_SomeD [OF rec] sn show ?thesis by blast
qed

theorem majorBumps_entry_witness:
  "\<exists>so sn vo vn. Str ''1.2.3'' = Str so \<and> Str ''2.0.0'' = Str sn \<and>
     map_of [(''packages/foo'', ''1.2.3''), (''packages/bar'', ''2.5.0'')] ''packages/foo'' = Some so \<and>
     map_of [(''packages/foo'', ''2.0.0''), (''packages/bar'', ''2.1.0'')] ''packages/foo'' = Some sn \<and>
     so \<noteq> sn \<and> parseVersion (Str so) = Inr vo \<and> parseVersion (Str sn) = Inr vn \<and>
     major vo < major vn"
proof -
  have run: "analyzeManifestChanges
      (Some [(''packages/foo'', ''1.2.3''), (''packages/bar'', ''2.5.0'')])
      (Some [(''packages/foo'', ''2.0.0''), (''packages/bar'', ''2.1.0'')]) =
      Inr \<lparr>hasMajorBump = True,
           majorBumps = [(''packages/foo'', Str ''1.2.3'', Str ''2.0.0'')]\<rparr>"
    by code_simp
  have d: "distinct (map fst [(''packages/foo'', ''2.0.0''), (''packages/bar'', ''2.1.0'')])"
    by simp
  have e: "map_of (majorBumps \<lparr>hasMajorBump = True,
           majorBumps = [(''packages/foo'', Str ''1.2.3'', Str ''2.0.0'')]\<rparr>) ''packages/foo'' =
           Some (Str ''1.2.3'', Str ''2.0.0'')"
    by simp
  from majorBumps_entry [OF run d e] show ?thesis .
qed

text \<open>
  C9, as the code has it. Take two runs on present manifests that both return a result,
  and a path at which the two old manifests agree (same string, or both without the path)
  and the two new manifests agree. Then the path is in \<open>majorBumps\<close> of both results or
  of neither, with the same pair: among runs that return, the entries at other paths do
  not matter. (The keys of a manifest are distinct.)
\<close>

theorem majorBumps_key_independent:
  assumes "analyzeManifestChanges (Some old1) (Some new1) = Inr r1"
    and "analyzeManifestChanges (Some old2) (Some new2) = Inr r2"
    and "distinct (map fst new1)" and "distinct (map fst new2)"
    and "map_of old1 path = map_of old2 path"
    and "map_of new1 path = map_of new2 path"
  shows "map_of (majorBumps r1) path = map_of (majorBumps r2) path"
proof -
  have "map_of (majorBumps r1) path =
          (case map_of new1 path of None \<Rightarrow> None | Some nv \<Rightarrow> recorded old1 path nv)"
    using assms(1,3) by (rule bumps_lookup)
  also have "\<dots> = (case map_of new2 path of None \<Rightarrow> None | Some nv \<Rightarrow> recorded old1 path nv)"
    by (simp only: assms(6))
  also have "\<dots> = (case map_of new2 path of None \<Rightarrow> None | Some nv \<Rightarrow> recorded old2 path nv)"
    by (simp only: recorded_own [OF assms(5)])
  also have "\<dots> = map_of (majorBumps r2) path"
    using assms(2,4) by (rule bumps_lookup [symmetric])
  finally show ?thesis .
qed

theorem majorBumps_key_independent_witness:
  "map_of (majorBumps \<lparr>hasMajorBump = True,
      majorBumps = [(''packages/foo'', Str ''1.2.3'', Str ''2.0.0'')]\<rparr>) ''packages/foo'' =
   map_of (majorBumps \<lparr>hasMajorBump = True,
      majorBumps = [(''packages/bar'', Str ''2.5.0'', Str ''3.0.0''),
                    (''packages/foo'', Str ''1.2.3'', Str ''2.0.0'')]\<rparr>) ''packages/foo''"
proof -
  have run1: "analyzeManifestChanges
      (Some [(''packages/foo'', ''1.2.3''), (''packages/bar'', ''2.5.0'')])
      (Some [(''packages/foo'', ''2.0.0''), (''packages/bar'', ''2.1.0'')]) =
      Inr \<lparr>hasMajorBump = True,
           majorBumps = [(''packages/foo'', Str ''1.2.3'', Str ''2.0.0'')]\<rparr>"
    by code_simp
  have run2: "analyzeManifestChanges
      (Some [(''packages/bar'', ''2.5.0''), (''packages/foo'', ''1.2.3'')])
      (Some [(''packages/bar'', ''3.0.0''), (''packages/foo'', ''2.0.0''), (''packages/new'', ''2.0.0'')]) =
      Inr \<lparr>hasMajorBump = True,
           majorBumps = [(''packages/bar'', Str ''2.5.0'', Str ''3.0.0''),
                         (''packages/foo'', Str ''1.2.3'', Str ''2.0.0'')]\<rparr>"
    by code_simp
  show ?thesis
    by (rule majorBumps_key_independent [OF run1 run2]) simp_all
qed

text \<open>
  C9 as stated fails. The two pairs of manifests below agree at \<^verbatim>\<open>packages/foo\<close>, in the
  old and in the new manifest. The first run records that path. The second run has one
  more path, whose old string does not parse, and throws: it reports nothing for
  \<^verbatim>\<open>packages/foo\<close>.
\<close>

theorem key_independence_counterexample:
  "map_of [(''packages/foo'', ''1.0.0'')] ''packages/foo'' =
     map_of [(''packages/foo'', ''1.0.0''), (''.'', ''1.2'')] ''packages/foo'' \<and>
   map_of [(''packages/foo'', ''2.0.0'')] ''packages/foo'' =
     map_of [(''packages/foo'', ''2.0.0''), (''.'', ''2.0.0'')] ''packages/foo'' \<and>
   analyzeManifestChanges (Some [(''packages/foo'', ''1.0.0'')])
     (Some [(''packages/foo'', ''2.0.0'')]) =
     Inr \<lparr>hasMajorBump = True,
          majorBumps = [(''packages/foo'', Str ''1.0.0'', Str ''2.0.0'')]\<rparr> \<and>
   analyzeManifestChanges (Some [(''packages/foo'', ''1.0.0''), (''.'', ''1.2'')])
     (Some [(''packages/foo'', ''2.0.0''), (''.'', ''2.0.0'')]) =
     Inl (InvalidVersionFormat (Str ''1.2''))"
  by code_simp

section \<open>Entries that throw and entries that are passed over\<close>

lemma analyze_entries_Cons_total:
  "(\<exists>ov e. get_property old path = Some ov \<and> truthy ov \<and> ov \<noteq> Str nv \<and>
       isMajorBump ov (Str nv) = Inl e \<and>
       analyze_entries old ((path, nv) # rest) acc = Inl e) \<or>
   (\<exists>acc'. analyze_entries old ((path, nv) # rest) acc = analyze_entries old rest acc')"
proof (cases "get_property old path")
  case None
  then show ?thesis using step_undefined [of old path nv rest acc] by blast
next
  case (Some ov)
  show ?thesis
  proof (cases "truthy ov \<and> ov \<noteq> Str nv")
    case False
    with Some show ?thesis
      using step_falsy [of old path ov nv rest acc] step_unchanged [of old path nv rest acc]
      by blast
  next
    case True
    then have t: "truthy ov" and ne: "ov \<noteq> Str nv" by simp_all
    show ?thesis
    proof (cases "isMajorBump ov (Str nv)")
      case (Inl e)
      then show ?thesis using step_throws [OF Some t ne Inl, of rest acc] Some t ne by blast
    next
      case (Inr b)
      then show ?thesis
        using step_major [OF Some t ne, of rest acc] step_not_major [OF Some t ne, of rest acc]
        by (cases b) auto
    qed
  qed
qed

lemma analyze_entries_throws:
  assumes "(path, nv) \<in> set new" and "get_property old path = Some ov"
    and "truthy ov" and "ov \<noteq> Str nv" and "isMajorBump ov (Str nv) = Inl e"
  shows "\<exists>e'. analyze_entries old new acc = Inl e'"
  using assms(1)
proof (induction new arbitrary: acc)
  case Nil
  then show ?case by simp
next
  case (Cons entry rest)
  obtain p s where entry: "entry = (p, s)" by (cases entry)
  show ?case
  proof (cases "entry = (path, nv)")
    case True
    then show ?thesis using step_throws [OF assms(2-5), of rest acc] by simp
  next
    case False
    with Cons.prems have "(path, nv) \<in> set rest" by simp
    then have ih: "\<And>acc'. \<exists>e'. analyze_entries old rest acc' = Inl e'" by (rule Cons.IH)
    from analyze_entries_Cons_total [of old p s rest acc] show ?thesis
    proof
      assume "\<exists>ov e. get_property old p = Some ov \<and> truthy ov \<and> ov \<noteq> Str s \<and>
                isMajorBump ov (Str s) = Inl e \<and> analyze_entries old ((p, s) # rest) acc = Inl e"
      with entry show ?thesis by blast
    next
      assume "\<exists>acc'. analyze_entries old ((p, s) # rest) acc = analyze_entries old rest acc'"
      then obtain acc' where "analyze_entries old ((p, s) # rest) acc = analyze_entries old rest acc'"
        by blast
      with ih [of acc'] entry show ?thesis by simp
    qed
  qed
qed

lemma analyze_entries_without:
  assumes "get_property old path = None \<or> (\<exists>ov. get_property old path = Some ov \<and> \<not> truthy ov)"
  shows "analyze_entries old new acc = analyze_entries old (without path new) acc"
proof (induction new arbitrary: acc)
  case Nil
  show ?case by (simp add: without_def)
next
  case (Cons entry rest)
  obtain p s where entry: "entry = (p, s)" by (cases entry)
  show ?case
  proof (cases "p = path")
    case True
    from assms have "analyze_entries old ((path, s) # rest) acc = analyze_entries old rest acc"
      using step_undefined [of old path s rest acc] step_falsy [of old path _ s rest acc] by blast
    moreover have "without path ((path, s) # rest) = without path rest"
      by (simp add: without_def)
    ultimately show ?thesis using True entry Cons.IH [of acc] by simp
  next
    case False
    then have w: "without path ((p, s) # rest) = (p, s) # without path rest"
      by (simp add: without_def)
    show ?thesis unfolding entry w
      by (simp add: Cons.IH split: option.splits sum.splits)
  qed
qed


lemma analyze_entries_Cons_uniform:
  "(\<exists>ov e. get_property old path = Some ov \<and> truthy ov \<and> ov \<noteq> Str nv \<and>
       isMajorBump ov (Str nv) = Inl e \<and>
       (\<forall>rest. analyze_entries old ((path, nv) # rest) acc = Inl e)) \<or>
   (\<exists>acc'. \<forall>rest. analyze_entries old ((path, nv) # rest) acc = analyze_entries old rest acc')"
proof (cases "get_property old path")
  case None
  then show ?thesis using step_undefined [of old path nv _ acc] by blast
next
  case (Some ov)
  show ?thesis
  proof (cases "truthy ov \<and> ov \<noteq> Str nv")
    case False
    with Some have "\<forall>rest. analyze_entries old ((path, nv) # rest) acc = analyze_entries old rest acc"
      using step_falsy [of old path ov nv _ acc] step_unchanged [of old path nv _ acc]
      by blast
    then show ?thesis by blast
  next
    case True
    then have t: "truthy ov" and ne: "ov \<noteq> Str nv" by simp_all
    show ?thesis
    proof (cases "isMajorBump ov (Str nv)")
      case (Inl e)
      have "\<forall>rest. analyze_entries old ((path, nv) # rest) acc = Inl e"
        using step_throws [OF Some t ne Inl, of _ acc] by blast
      with Some t ne Inl show ?thesis by blast
    next
      case (Inr b)
      show ?thesis
      proof (cases b)
        case True
        with Inr have "isMajorBump ov (Str nv) = Inr True" by simp
        then have "\<forall>rest. analyze_entries old ((path, nv) # rest) acc =
                     analyze_entries old rest (set_property acc path (ov, Str nv))"
          using step_major [OF Some t ne, of _ acc] by blast
        then show ?thesis by blast
      next
        case False
        with Inr have "isMajorBump ov (Str nv) = Inr False" by simp
        then have "\<forall>rest. analyze_entries old ((path, nv) # rest) acc = analyze_entries old rest acc"
          using step_not_major [OF Some t ne, of _ acc] by blast
        then show ?thesis by blast
      qed
    qed
  qed
qed

lemma analyze_entries_first_throw:
  "analyze_entries old new acc = Inl e \<Longrightarrow>
   \<exists>pre p s post ov bumps.
     new = pre @ (p, s) # post \<and> analyze_entries old pre acc = Inr bumps \<and>
     get_property old p = Some ov \<and> truthy ov \<and> ov \<noteq> Str s \<and>
     isMajorBump ov (Str s) = Inl e"
proof (induction new arbitrary: acc)
  case Nil
  then show ?case by simp
next
  case (Cons entry rest)
  obtain p s where entry: "entry = (p, s)" by (cases entry)
  from analyze_entries_Cons_uniform [of old p s acc] show ?case
  proof
    assume "\<exists>ov e. get_property old p = Some ov \<and> truthy ov \<and> ov \<noteq> Str s \<and>
              isMajorBump ov (Str s) = Inl e \<and>
              (\<forall>rest. analyze_entries old ((p, s) # rest) acc = Inl e)"
    then obtain ov e' where h: "get_property old p = Some ov" "truthy ov" "ov \<noteq> Str s"
      "isMajorBump ov (Str s) = Inl e'" "analyze_entries old ((p, s) # rest) acc = Inl e'"
      by blast
    from h(5) Cons.prems entry have "e' = e" by simp
    moreover have "entry # rest = [] @ (p, s) # rest" using entry by simp
    moreover have "analyze_entries old [] acc = Inr acc" by simp
    ultimately show ?thesis using h(1-4) by blast
  next
    assume "\<exists>acc'. \<forall>rest. analyze_entries old ((p, s) # rest) acc = analyze_entries old rest acc'"
    then obtain acc' where
      step: "\<And>rest. analyze_entries old ((p, s) # rest) acc = analyze_entries old rest acc'"
      by blast
    from Cons.prems entry step [of rest] have "analyze_entries old rest acc' = Inl e" by simp
    then obtain pre q t post ov bumps where
      r: "rest = pre @ (q, t) # post" and pre: "analyze_entries old pre acc' = Inr bumps"
      and h: "get_property old q = Some ov" "truthy ov" "ov \<noteq> Str t"
        "isMajorBump ov (Str t) = Inl e"
      using Cons.IH by blast
    from r entry have "entry # rest = ((p, s) # pre) @ (q, t) # post" by simp
    moreover from pre step [of pre] have "analyze_entries old ((p, s) # pre) acc = Inr bumps"
      by simp
    ultimately show ?thesis using h by blast
  qed
qed

lemma analyze_entries_without_unchanged:
  assumes "\<forall>t. (q, t) \<in> set new \<longrightarrow> get_property old q = Some (Str t)"
  shows "analyze_entries old new acc = analyze_entries old (without q new) acc"
  using assms
proof (induction new arbitrary: acc)
  case Nil
  show ?case by (simp add: without_def)
next
  case (Cons entry rest)
  obtain p s where entry: "entry = (p, s)" by (cases entry)
  from Cons.prems have rest: "\<forall>t. (q, t) \<in> set rest \<longrightarrow> get_property old q = Some (Str t)"
    by simp
  show ?case
  proof (cases "p = q")
    case True
    with Cons.prems entry have "get_property old q = Some (Str s)" by simp
    then have "analyze_entries old ((q, s) # rest) acc = analyze_entries old rest acc"
      by (rule step_unchanged)
    moreover have "without q ((q, s) # rest) = without q rest"
      by (simp add: without_def)
    ultimately show ?thesis using True entry Cons.IH [OF rest, of acc] by simp
  next
    case False
    then have w: "without q ((p, s) # rest) = (p, s) # without q rest"
      by (simp add: without_def)
    show ?thesis unfolding entry w
      by (simp add: Cons.IH [OF rest] split: option.splits sum.splits)
  qed
qed


text \<open>
  C2, as the code has it. Take two present manifests.
  If some entry of the new manifest has an old string at its path that is not empty and
  differs from the new string, and the old or the new string does not parse, the analysis
  returns no result. It fails at the first entry, in the order of the loop, on which
  \<^verbatim>\<open>isMajorBump\<close> throws: the entries before it run through, and the error of the analysis
  is the error of that call, which is the \<open>InvalidVersionFormat\<close> that \<^verbatim>\<open>parseVersion\<close>
  raised on the old value or on the new string of that entry.
  An entry whose path has the empty string in the old manifest, or the same string in
  both manifests, is passed over, malformed or not: the outcome is that of the new
  manifest without it.
\<close>

theorem malformed_entry_policy:
  "((path, nv) \<in> set new \<and> map_of old path = Some ov \<and> ov \<noteq> [] \<and> ov \<noteq> nv \<and>
    (parseVersion (Str ov) = Inl (InvalidVersionFormat (Str ov)) \<or>
     parseVersion (Str nv) = Inl (InvalidVersionFormat (Str nv))) \<longrightarrow>
    (\<exists>pre p s post x bumps v.
       new = pre @ (p, s) # post \<and> analyze_entries old pre [] = Inr bumps \<and>
       get_property old p = Some x \<and> truthy x \<and> x \<noteq> Str s \<and>
       (v = x \<or> v = Str s) \<and> parseVersion v = Inl (InvalidVersionFormat v) \<and>
       isMajorBump x (Str s) = Inl (InvalidVersionFormat v) \<and>
       analyzeManifestChanges (Some old) (Some new) = Inl (InvalidVersionFormat v))) \<and>
   (map_of old q = Some [] \<or> (\<forall>t. (q, t) \<in> set new \<longrightarrow> map_of old q = Some t) \<longrightarrow>
    analyzeManifestChanges (Some old) (Some new) =
      analyzeManifestChanges (Some old) (Some (without q new)))"
proof (intro conjI impI)
  assume h: "(path, nv) \<in> set new \<and> map_of old path = Some ov \<and> ov \<noteq> [] \<and> ov \<noteq> nv \<and>
    (parseVersion (Str ov) = Inl (InvalidVersionFormat (Str ov)) \<or>
     parseVersion (Str nv) = Inl (InvalidVersionFormat (Str nv)))"
  then have g: "get_property old path = Some (Str ov)" by (simp add: get_property_Str)
  from h obtain e0 where "isMajorBump (Str ov) (Str nv) = Inl e0"
    using isMajorBump_fails by blast
  with g h obtain e where e: "analyze_entries old new [] = Inl e"
    using analyze_entries_throws [of path nv new old "Str ov" e0 "[]"] by auto
  then obtain pre p s post x bumps where
    d: "new = pre @ (p, s) # post" "analyze_entries old pre [] = Inr bumps"
       "get_property old p = Some x" "truthy x" "x \<noteq> Str s"
    and m: "isMajorBump x (Str s) = Inl e"
    using analyze_entries_first_throw by blast
  from m have "parseVersion x = Inl e \<or> parseVersion (Str s) = Inl e"
    by (rule isMajorBump_Inl)
  then obtain v where v: "v = x \<or> v = Str s" "parseVersion v = Inl e" by blast
  from v(2) have ev: "e = InvalidVersionFormat v" by (rule parseVersion_Inl)
  from e ev have "analyzeManifestChanges (Some old) (Some new) = Inl (InvalidVersionFormat v)"
    by (simp add: analyzeManifestChanges_present)
  with d m v ev show "\<exists>pre p s post x bumps v.
       new = pre @ (p, s) # post \<and> analyze_entries old pre [] = Inr bumps \<and>
       get_property old p = Some x \<and> truthy x \<and> x \<noteq> Str s \<and>
       (v = x \<or> v = Str s) \<and> parseVersion v = Inl (InvalidVersionFormat v) \<and>
       isMajorBump x (Str s) = Inl (InvalidVersionFormat v) \<and>
       analyzeManifestChanges (Some old) (Some new) = Inl (InvalidVersionFormat v)"
    by blast
next
  assume "map_of old q = Some [] \<or> (\<forall>t. (q, t) \<in> set new \<longrightarrow> map_of old q = Some t)"
  then have "analyze_entries old new [] = analyze_entries old (without q new) []"
  proof
    assume "map_of old q = Some []"
    then have "get_property old q = Some (Str [])" by (simp add: get_property_Str)
    then show ?thesis by (intro analyze_entries_without) simp
  next
    assume "\<forall>t. (q, t) \<in> set new \<longrightarrow> map_of old q = Some t"
    then have "\<forall>t. (q, t) \<in> set new \<longrightarrow> get_property old q = Some (Str t)"
      by (simp add: get_property_Str)
    then show ?thesis by (rule analyze_entries_without_unchanged)
  qed
  then show "analyzeManifestChanges (Some old) (Some new) =
      analyzeManifestChanges (Some old) (Some (without q new))"
    by (simp add: analyzeManifestChanges_present)
qed

theorem malformed_entry_policy_witness:
  "(\<exists>pre p s post x bumps v.
       [(''packages/foo'', ''2.0.0''), (''.'', ''2.0.0'')] = pre @ (p, s) # post \<and>
       analyze_entries [(''packages/foo'', ''1.0.0''), (''.'', ''1.2'')] pre [] = Inr bumps \<and>
       get_property [(''packages/foo'', ''1.0.0''), (''.'', ''1.2'')] p = Some x \<and>
       truthy x \<and> x \<noteq> Str s \<and>
       (v = x \<or> v = Str s) \<and> parseVersion v = Inl (InvalidVersionFormat v) \<and>
       isMajorBump x (Str s) = Inl (InvalidVersionFormat v) \<and>
       analyzeManifestChanges (Some [(''packages/foo'', ''1.0.0''), (''.'', ''1.2'')])
         (Some [(''packages/foo'', ''2.0.0''), (''.'', ''2.0.0'')]) =
         Inl (InvalidVersionFormat v)) \<and>
   analyzeManifestChanges (Some [(''.'', ''1.2'')]) (Some [(''.'', ''1.2'')]) =
     analyzeManifestChanges (Some [(''.'', ''1.2'')]) (Some (without ''.'' [(''.'', ''1.2'')]))"
proof -
  have p: "parseVersion (Str ''1.2'') = Inl (InvalidVersionFormat (Str ''1.2''))"
    by code_simp
  have a: "(''.'', ''2.0.0'') \<in> set [(''packages/foo'', ''2.0.0''), (''.'', ''2.0.0'')] \<and>
        map_of [(''packages/foo'', ''1.0.0''), (''.'', ''1.2'')] ''.'' = Some ''1.2'' \<and>
        ''1.2'' \<noteq> [] \<and> ''1.2'' \<noteq> ''2.0.0'' \<and>
        (parseVersion (Str ''1.2'') = Inl (InvalidVersionFormat (Str ''1.2'')) \<or>
         parseVersion (Str ''2.0.0'') = Inl (InvalidVersionFormat (Str ''2.0.0'')))"
    using p by simp
  have b: "map_of [(''.'', ''1.2'')] ''.'' = Some [] \<or>
        (\<forall>t. (''.'', t) \<in> set [(''.'', ''1.2'')] \<longrightarrow> map_of [(''.'', ''1.2'')] ''.'' = Some t)"
    by simp
  from malformed_entry_policy
    [of "''.''" "''2.0.0''" "[(''packages/foo'', ''2.0.0''), (''.'', ''2.0.0'')]"
        "[(''packages/foo'', ''1.0.0''), (''.'', ''1.2'')]" "''1.2''"] a
  have first: "\<exists>pre p s post x bumps v.
       [(''packages/foo'', ''2.0.0''), (''.'', ''2.0.0'')] = pre @ (p, s) # post \<and>
       analyze_entries [(''packages/foo'', ''1.0.0''), (''.'', ''1.2'')] pre [] = Inr bumps \<and>
       get_property [(''packages/foo'', ''1.0.0''), (''.'', ''1.2'')] p = Some x \<and>
       truthy x \<and> x \<noteq> Str s \<and>
       (v = x \<or> v = Str s) \<and> parseVersion v = Inl (InvalidVersionFormat v) \<and>
       isMajorBump x (Str s) = Inl (InvalidVersionFormat v) \<and>
       analyzeManifestChanges (Some [(''packages/foo'', ''1.0.0''), (''.'', ''1.2'')])
         (Some [(''packages/foo'', ''2.0.0''), (''.'', ''2.0.0'')]) =
         Inl (InvalidVersionFormat v)"
    by blast
  from malformed_entry_policy
    [of _ _ "[(''.'', ''1.2'')]" "[(''.'', ''1.2'')]" _ "''.''"] b
  have "analyzeManifestChanges (Some [(''.'', ''1.2'')]) (Some [(''.'', ''1.2'')]) =
     analyzeManifestChanges (Some [(''.'', ''1.2'')]) (Some (without ''.'' [(''.'', ''1.2'')]))"
    by blast
  with first show ?thesis by blast
qed

text \<open>
  C2 as stated fails: the string \<^verbatim>\<open>1.2\<close> does not have the shape of a version and does
  not parse, yet with it on both sides of the same path the analysis returns a result.
\<close>

theorem malformed_unchanged_entry_counterexample:
  "\<not> version_shape ''1.2'' \<and>
   parseVersion (Str ''1.2'') = Inl (InvalidVersionFormat (Str ''1.2'')) \<and>
   analyzeManifestChanges (Some [(''.'', ''1.2'')]) (Some [(''.'', ''1.2'')]) =
     Inr \<lparr>hasMajorBump = False, majorBumps = []\<rparr>"
proof -
  have p: "parse_string ''1.2'' = None" by code_simp
  then have "\<not> version_shape ''1.2''" using shape_parse_string by fastforce
  moreover have "parseVersion (Str ''1.2'') = Inl (InvalidVersionFormat (Str ''1.2''))"
    using p by (simp add: parseVersion_def)
  moreover have "analyzeManifestChanges (Some [(''.'', ''1.2'')]) (Some [(''.'', ''1.2'')]) =
     Inr \<lparr>hasMajorBump = False, majorBumps = []\<rparr>"
    by code_simp
  ultimately show ?thesis by blast
qed

text \<open>
  C10. When the old manifest has the empty string at a path, the entry of the new manifest
  for that path is passed over: the outcome of the analysis, result or error, is the one
  for the new manifest without that entry, no returned \<open>majorBumps\<close> has the path, and with
  that entry alone the result is empty, whatever string the new manifest gives.
\<close>

theorem empty_old_string_skipped:
  assumes "map_of old path = Some []"
  shows "analyzeManifestChanges (Some old) (Some new) =
           analyzeManifestChanges (Some old) (Some (without path new)) \<and>
         (\<forall>r. analyzeManifestChanges (Some old) (Some new) = Inr r \<longrightarrow>
              map_of (majorBumps r) path = None) \<and>
         analyzeManifestChanges (Some old) (Some [(path, nv)]) =
           Inr \<lparr>hasMajorBump = False, majorBumps = []\<rparr>"
proof -
  from assms have g: "get_property old path = Some (Str [])" by (simp add: get_property_Str)
  then have skip: "\<And>entries acc.
      analyze_entries old entries acc = analyze_entries old (without path entries) acc"
    by (intro analyze_entries_without) simp
  have eq: "analyzeManifestChanges (Some old) (Some new) =
              analyzeManifestChanges (Some old) (Some (without path new))"
    by (simp add: analyzeManifestChanges_present skip [of new])
  have none: "map_of (majorBumps r) path = None"
    if "analyzeManifestChanges (Some old) (Some new) = Inr r" for r
  proof -
    from that eq have "analyzeManifestChanges (Some old) (Some (without path new)) = Inr r"
      by simp
    then have "analyze_entries old (without path new) [] = Inr (majorBumps r)"
      by (rule analyzeManifestChanges_Inr [THEN conjunct1])
    then have "fst ` set (majorBumps r) \<subseteq> fst ` set (without path new)"
      using analyze_entries_keys [of old "without path new" "[]" "majorBumps r"] by simp
    then have "path \<notin> fst ` set (majorBumps r)" by (auto simp: without_def)
    then show ?thesis by (simp add: map_of_eq_None_iff)
  qed
  have "analyze_entries old [(path, nv)] [] = Inr []"
    using skip [of "[(path, nv)]" "[]"] by (simp add: without_def)
  then have "analyzeManifestChanges (Some old) (Some [(path, nv)]) =
           Inr \<lparr>hasMajorBump = False, majorBumps = []\<rparr>"
    by (simp add: analyzeManifestChanges_present)
  with eq none show ?thesis by blast
qed

theorem empty_old_string_skipped_witness:
  "analyzeManifestChanges (Some [(''.'', [])]) (Some [(''.'', ''999.0.0'')]) =
     Inr \<lparr>hasMajorBump = False, majorBumps = []\<rparr> \<and>
   parseVersion (Str ''999.0.0'') =
     Inr \<lparr>version = ''999.0.0'', major = 999, minor = 0, patch = 0\<rparr>"
proof -
  have "map_of [(''.'', [])] ''.'' = Some []" by simp
  from empty_old_string_skipped [OF this, of _ "''999.0.0''"]
  have "analyzeManifestChanges (Some [(''.'', [])]) (Some [(''.'', ''999.0.0'')]) =
     Inr \<lparr>hasMajorBump = False, majorBumps = []\<rparr>" by blast
  moreover have "parseVersion (Str ''999.0.0'') =
     Inr \<lparr>version = ''999.0.0'', major = 999, minor = 0, patch = 0\<rparr>"
    by code_simp
  ultimately show ?thesis by blast
qed

text \<open>
  A path that only the new manifest has is passed over in the same way, provided it is
  not the name of a member of \<^verbatim>\<open>Object.prototype\<close>.
\<close>

lemma new_path_skipped:
  assumes "map_of old path = None" and "path \<notin> set Object_prototype"
  shows "analyzeManifestChanges (Some old) (Some new) =
           analyzeManifestChanges (Some old) (Some (without path new))"
proof -
  from assms have "get_property old path = None" by (simp add: get_property_def)
  then have "analyze_entries old new [] = analyze_entries old (without path new) []"
    by (intro analyze_entries_without) simp
  then show ?thesis by (simp add: analyzeManifestChanges_present)
qed

text \<open>
  When it is such a name, the read \<^verbatim>\<open>oldManifest?.[path]\<close> gives the inherited member,
  which is true and differs from every string, so \<^verbatim>\<open>isMajorBump\<close> is called on it and
  throws.
\<close>

lemma inherited_path_throws:
  assumes "map_of old path = None" and "path \<in> set Object_prototype"
    and "(path, nv) \<in> set new"
  shows "\<exists>e. analyzeManifestChanges (Some old) (Some new) = Inl e"
proof -
  from assms(1,2) have g: "get_property old path = Some (Inherited path)"
    by (simp add: get_property_def)
  have "\<exists>e. isMajorBump (Inherited path) (Str nv) = Inl e"
    using isMajorBump_fails parseVersion_Inherited by blast
  then obtain e where "isMajorBump (Inherited path) (Str nv) = Inl e" by blast
  with g assms(3) obtain e' where "analyze_entries old new [] = Inl e'"
    using analyze_entries_throws [of path nv new old "Inherited path" e "[]"] by auto
  then show ?thesis by (simp add: analyzeManifestChanges_present)
qed

text \<open>
  C5. A path that the new manifest has and the old one lacks is to be passed over, never
  recorded and never the cause of a failure. The code does not do so for the path
  \<^verbatim>\<open>constructor\<close>: on the manifests of the test for new packages, with the new package
  at that path, it throws instead of returning the empty result.
\<close>

theorem new_path_constructor_throws:
  "analyzeManifestChanges (Some [(''packages/existing'', ''1.0.0'')])
     (Some [(''packages/existing'', ''1.0.0''), (''constructor'', ''2.0.0'')]) =
     Inl (InvalidVersionFormat (Inherited ''constructor''))"
  by code_simp

end
